theory Spec2Isabelle
  imports Main "HOL-Library.List_Lexorder" "HOL-Library.Product_Lexorder" "HOL-Library.Multiset"
begin

section \<open>Python values\<close>

text \<open>
  A Python \<open>str\<close> is a sequence of Unicode code points. The 8-bit \<open>char\<close> of HOL cannot
  hold the Japanese text the program works on, so a string is the list of its code points;
  \<open>str\<close> lifts an ASCII literal.
\<close>

type_synonym ustr = "nat list"

definition str :: "string \<Rightarrow> ustr" where
  "str s = map of_char s"

text \<open>
  The values a field of a comment or of a stored record can hold: JSON null, booleans,
  integers and strings. JSON numbers with a fraction and nested arrays or objects as field
  values are outside the model.
\<close>

datatype pyval = PNone | PBool bool | PInt int | PStr ustr

text \<open>A Python \<open>dict\<close> with string keys; \<open>d k = None\<close> when the key is absent.\<close>

type_synonym pydict = "ustr \<rightharpoonup> pyval"

text \<open>An element of the list read from the store: a JSON object or something else.\<close>

datatype elem = Obj pydict | Atom pyval

datatype error = KeyError | TypeError | AttributeError | ValueError

text \<open>\<open>d.get(k)\<close>: the value, \<open>None\<close> of Python when the key is absent.\<close>

definition get :: "pydict \<Rightarrow> ustr \<Rightarrow> pyval" where
  "get d k = (case d k of None \<Rightarrow> PNone | Some v \<Rightarrow> v)"

text \<open>\<open>d.get(k, default)\<close>.\<close>

definition get_default :: "pydict \<Rightarrow> ustr \<Rightarrow> pyval \<Rightarrow> pyval" where
  "get_default d k dflt = (case d k of None \<Rightarrow> dflt | Some v \<Rightarrow> v)"

text \<open>
  Numbers compare by value in Python, and \<open>True\<close> and \<open>False\<close> are the integers 1 and 0:
  \<open>1 == True\<close>, and both hash alike, so they are one key of a \<open>dict\<close>.
\<close>

fun num_of :: "pyval \<Rightarrow> int option" where
  "num_of (PInt i) = Some i"
| "num_of (PBool b) = Some (if b then 1 else 0)"
| "num_of PNone = None"
| "num_of (PStr s) = None"

definition py_eq :: "pyval \<Rightarrow> pyval \<Rightarrow> bool" where
  "py_eq a b = (case (num_of a, num_of b) of
      (Some i, Some j) \<Rightarrow> i = j
    | (None, None) \<Rightarrow> a = b
    | _ \<Rightarrow> False)"

text \<open>
  \<open>a < b\<close> of Python: two strings compare lexicographically by code points
  (\<open>str_lt\<close>), two numbers by value, and every other pair raises \<open>TypeError\<close> (here
  \<open>None\<close>), also \<open>None < None\<close>.
\<close>

fun str_lt :: "ustr \<Rightarrow> ustr \<Rightarrow> bool" where
  "str_lt [] [] = False"
| "str_lt [] (y # ys) = True"
| "str_lt (x # xs) [] = False"
| "str_lt (x # xs) (y # ys) = (x < y \<or> (x = y \<and> str_lt xs ys))"

fun py_lt :: "pyval \<Rightarrow> pyval \<Rightarrow> bool option" where
  "py_lt (PStr a) (PStr b) = Some (str_lt a b)"
| "py_lt a b = (case (num_of a, num_of b) of
      (Some i, Some j) \<Rightarrow> Some (i < j)
    | _ \<Rightarrow> None)"

section \<open>merge\_events (main.py)\<close>

text \<open>
  The \<open>dict\<close> that \<open>merge_events\<close> builds is keyed by \<open>comment_id\<close> values and keeps its
  keys in insertion order; assigning to a key that is present replaces the value and leaves
  the key where it is.
\<close>

type_synonym iddict = "(pyval \<times> pydict) list"

fun dict_set :: "iddict \<Rightarrow> pyval \<Rightarrow> pydict \<Rightarrow> iddict" where
  "dict_set [] k v = [(k, v)]"
| "dict_set ((k', v') # d) k v =
     (if py_eq k' k then (k', v) # d else (k', v') # dict_set d k v)"

text \<open>
  \<open>event['comment_id']\<close>: a \<open>KeyError\<close> when the record has no such key, a \<open>TypeError\<close>
  when the element is not a \<open>dict\<close> (a number, a string, null).
\<close>

fun comment_id_of :: "elem \<Rightarrow> error + pyval" where
  "comment_id_of (Obj d) =
     (case d (str ''comment_id'') of None \<Rightarrow> Inl KeyError | Some k \<Rightarrow> Inr k)"
| "comment_id_of (Atom v) = Inl TypeError"

fun the_dict :: "elem \<Rightarrow> pydict" where
  "the_dict (Obj d) = d"
| "the_dict (Atom v) = Map.empty"

text \<open>
  Both the comprehension over \<open>existing_events\<close> (line 88) and the loop over
  \<open>new_events\<close> (lines 91-92) assign \<open>existing_dict[event['comment_id']] = event\<close>
  for each event in turn.
\<close>

fun insert_events :: "elem list \<Rightarrow> iddict \<Rightarrow> error + iddict" where
  "insert_events [] d = Inr d"
| "insert_events (e # es) d =
     (case comment_id_of e of
        Inl err \<Rightarrow> Inl err
      | Inr k \<Rightarrow> insert_events es (dict_set d k (the_dict e)))"

text \<open>The sort key, \<open>x.get('extracted_at', '')\<close>.\<close>

definition extracted_at_key :: "pydict \<Rightarrow> pyval" where
  "extracted_at_key x = get_default x (str ''extracted_at'') (PStr [])"

text \<open>
  \<open>list.sort(key=..., reverse=True)\<close> is stable: records with equal keys keep their
  order, the others come out with the greater key first. It compares keys with \<open><\<close> only.
  Every key takes part in a comparison as soon as there are two, and among the values of
  \<open>pyval\<close> two keys compare exactly when both are strings or both are numbers; so the
  sort raises \<open>TypeError\<close> exactly when there are two or more keys and some pair of them
  does not compare.
\<close>

definition comparable :: "pyval list \<Rightarrow> bool" where
  "comparable ks = (length ks \<le> 1 \<or> list_all (\<lambda>a. list_all (\<lambda>b. \<not> Option.is_none (py_lt a b)) ks) ks)"

fun insert_desc :: "pydict \<Rightarrow> pydict list \<Rightarrow> pydict list" where
  "insert_desc x [] = [x]"
| "insert_desc x (y # ys) =
     (if py_lt (extracted_at_key x) (extracted_at_key y) = Some True then y # insert_desc x ys
      else x # y # ys)"

definition sort_desc :: "pydict list \<Rightarrow> error + pydict list" where
  "sort_desc xs =
     (if comparable (map extracted_at_key xs) then Inr (foldr insert_desc xs []) else Inl TypeError)"

definition merge_events :: "elem list \<Rightarrow> elem list \<Rightarrow> error + pydict list" where
  "merge_events existing_events new_events =
     (case insert_events existing_events [] of
        Inl err \<Rightarrow> Inl err
      | Inr existing_dict \<Rightarrow>
          (case insert_events new_events existing_dict of
             Inl err \<Rightarrow> Inl err
           | Inr existing_dict' \<Rightarrow> sort_desc (map snd existing_dict')))"


section \<open>EventAnalyzer (src/analyzer.py)\<close>

text \<open>
  The analyzer uses three tables of the Python runtime that are not part of the
  repository: the white space of \<open>\s\<close> and \<open>str.strip\<close>, the decimal digits of \<open>\d\<close>,
  and \<open>str.lower\<close>. They are parameters of the model.
\<close>

record chartab =
  isspace :: "nat \<Rightarrow> bool"
  isdigit :: "nat \<Rightarrow> bool"
  lower :: "ustr \<Rightarrow> ustr"

text \<open>
  The regular expressions of the analyzer are sequences of single-character classes, each
  taken once (\<open>a\<close>), at most once (\<open>a?\<close>), once or twice (\<open>a{1,2}\<close>) or at least once
  (\<open>a+\<close>). \<open>match_here\<close> says whether the pattern matches some prefix of the text,
  \<open>re_search\<close> whether it matches anywhere, which is when \<open>re.search\<close> returns a match.
\<close>

datatype atom = Chr nat | Digit | NonSpace

datatype piece = One atom | Opt atom | OneOrTwo atom | Many atom

type_synonym pattern = "piece list"

fun atom_ok :: "chartab \<Rightarrow> atom \<Rightarrow> nat \<Rightarrow> bool" where
  "atom_ok T (Chr c) x = (x = c)"
| "atom_ok T Digit x = isdigit T x"
| "atom_ok T NonSpace x = (\<not> isspace T x)"

fun match_here :: "chartab \<Rightarrow> pattern \<Rightarrow> ustr \<Rightarrow> bool" where
  "match_here T [] s = True"
| "match_here T (One a # ps) [] = False"
| "match_here T (One a # ps) (c # cs) = (atom_ok T a c \<and> match_here T ps cs)"
| "match_here T (Opt a # ps) [] = match_here T ps []"
| "match_here T (Opt a # ps) (c # cs) =
     ((atom_ok T a c \<and> match_here T ps cs) \<or> match_here T ps (c # cs))"
| "match_here T (OneOrTwo a # ps) [] = False"
| "match_here T (OneOrTwo a # ps) [c] = (atom_ok T a c \<and> match_here T ps [])"
| "match_here T (OneOrTwo a # ps) (c # d # ds) =
     (atom_ok T a c \<and> (match_here T ps (d # ds) \<or> (atom_ok T a d \<and> match_here T ps ds)))"
| "match_here T (Many a # ps) [] = False"
| "match_here T (Many a # ps) (c # cs) =
     (atom_ok T a c \<and> (match_here T ps cs \<or> match_here T (Many a # ps) cs))"

fun re_search :: "chartab \<Rightarrow> pattern \<Rightarrow> ustr \<Rightarrow> bool" where
  "re_search T p [] = match_here T p []"
| "re_search T p (c # cs) = (match_here T p (c # cs) \<or> re_search T p cs)"

definition lit :: "ustr \<Rightarrow> pattern" where
  "lit s = map (\<lambda>c. One (Chr c)) s"

text \<open>
  \<open>self.event_keywords\<close> (lines 17-21), by code points: kaisai, shuugou, raibu, ofukai,
  hatsubai, sutaato, basho, chiketto, ibento, kaijou, sanka, yoyaku, kaishi, shuuryou,
  kaisaibi, nittei, nichiji.
\<close>

definition event_keywords :: "ustr list" where
  "event_keywords =
    [[38283, 20652], [38598, 21512], [12521, 12452, 12502], [12458, 12501, 20250],
     [30330, 22770], [12473, 12479, 12540, 12488], [22580, 25152],
     [12481, 12465, 12483, 12488], [12452, 12505, 12531, 12488], [20250, 22580],
     [21442, 21152], [20104, 32004], [38283, 22987], [32066, 20102],
     [38283, 20652, 26085], [26085, 31243], [26085, 26178]]"

text \<open>
  \<open>self.date_patterns\<close> (lines 24-47). 26376 is the character for month, 26085 for day,
  26178 for hour, 26332 the second character of the names of the days of the week.
\<close>

definition date_patterns :: "pattern list" where
  "date_patterns =
    [[OneOrTwo Digit, One (Chr 26376), OneOrTwo Digit, One (Chr 26085)],
     [OneOrTwo Digit, One (Chr 47), OneOrTwo Digit],
     [OneOrTwo Digit, One (Chr 45), OneOrTwo Digit],
     lit [26126, 26085],
     lit [26126, 24460, 26085],
     lit [26469, 36913],
     lit [26469, 26376],
     lit [20170, 36913],
     lit [20170, 26376],
     lit [22303, 26332],
     lit [26085, 26332],
     lit [26376, 26332],
     lit [28779, 26332],
     lit [27700, 26332],
     lit [26408, 26332],
     lit [37329, 26332],
     [OneOrTwo Digit, One (Chr 26178)],
     [OneOrTwo Digit, One (Chr 58), One Digit, One Digit],
     lit [21320, 21069] @ [OneOrTwo Digit, One (Chr 26178)],
     lit [21320, 24460] @ [OneOrTwo Digit, One (Chr 26178)],
     lit (str ''AM'') @ [OneOrTwo Digit],
     lit (str ''PM'') @ [OneOrTwo Digit]]"

text \<open>
  \<open>self.url_pattern\<close> (lines 50-52), one pattern for each alternative of
  \<^verbatim>\<open>https?://[^\s]+|www\.[^\s]+|\.com|\.net|\.org|\.jp\<close>.
\<close>

definition url_pattern :: "pattern list" where
  "url_pattern =
    [lit (str ''http'') @ [Opt (Chr 115)] @ lit (str ''://'') @ [Many NonSpace],
     lit (str ''www.'') @ [Many NonSpace],
     lit (str ''.com''),
     lit (str ''.net''),
     lit (str ''.org''),
     lit (str ''.jp'')]"

definition contains_future_date :: "chartab \<Rightarrow> ustr \<Rightarrow> bool" where
  "contains_future_date T text = list_ex (\<lambda>p. re_search T p text) date_patterns"

text \<open>\<open>keyword in text\<close>: the keyword is a contiguous part of the text.\<close>

fun starts_with :: "ustr \<Rightarrow> ustr \<Rightarrow> bool" where
  "starts_with s [] = True"
| "starts_with [] (k # ks) = False"
| "starts_with (c # cs) (k # ks) = (c = k \<and> starts_with cs ks)"

fun contains :: "ustr \<Rightarrow> ustr \<Rightarrow> bool" where
  "contains [] k = starts_with [] k"
| "contains (c # cs) k = (starts_with (c # cs) k \<or> contains cs k)"

definition contains_event_keyword :: "chartab \<Rightarrow> ustr \<Rightarrow> bool" where
  "contains_event_keyword T text =
     (let text_lower = lower T text in list_ex (\<lambda>keyword. contains text_lower keyword) event_keywords)"

text \<open>\<open>text.strip()\<close>.\<close>

definition strip :: "chartab \<Rightarrow> ustr \<Rightarrow> ustr" where
  "strip T s = rev (dropWhile (isspace T) (rev (dropWhile (isspace T) s)))"

definition url_search :: "chartab \<Rightarrow> ustr \<Rightarrow> bool" where
  "url_search T text = list_ex (\<lambda>p. re_search T p text) url_pattern"

definition is_spam :: "chartab \<Rightarrow> ustr \<Rightarrow> bool" where
  "is_spam T text =
     (if url_search T text then True
      else let text_length = length (strip T text) in
        if text_length < 5 \<or> text_length > 500 then True else False)"

text \<open>
  The reading of \<open>datetime.utcnow()\<close> and its \<open>isoformat()\<close>:
  \<^verbatim>\<open>YYYY-MM-DDTHH:MM:SS\<close>, followed by \<^verbatim>\<open>.ffffff\<close> when the microseconds are not 0.
  \<open>zpad n k\<close> is \<open>k\<close> in \<open>n\<close> decimal digits.
\<close>

record datetime =
  year :: nat
  month :: nat
  day :: nat
  hour :: nat
  minute :: nat
  second :: nat
  microsecond :: nat

fun zpad :: "nat \<Rightarrow> nat \<Rightarrow> ustr" where
  "zpad 0 k = []"
| "zpad (Suc n) k = zpad n (k div 10) @ [48 + k mod 10]"

definition isoformat :: "datetime \<Rightarrow> ustr" where
  "isoformat t =
     zpad 4 (year t) @ str ''-'' @ zpad 2 (month t) @ str ''-'' @ zpad 2 (day t) @ str ''T'' @
     zpad 2 (hour t) @ str '':'' @ zpad 2 (minute t) @ str '':'' @ zpad 2 (second t) @
     (if microsecond t = 0 then [] else str ''.'' @ zpad 6 (microsecond t))"

text \<open>
  \<open>extract_event_info\<close> (lines 106-143). A \<open>text\<close> that is not a string makes
  \<open>re.search\<close> raise \<open>TypeError\<close>. The result \<open>Inr None\<close> is the \<open>None\<close> the method
  returns for a comment it rejects.
\<close>

definition extract_event_info :: "chartab \<Rightarrow> datetime \<Rightarrow> pydict \<Rightarrow> error + pydict option" where
  "extract_event_info T now comment =
     (case get_default comment (str ''text'') (PStr []) of
        PStr text \<Rightarrow>
          if is_spam T text then Inr None
          else if \<not> contains_future_date T text then Inr None
          else if \<not> contains_event_keyword T text then Inr None
          else Inr (Some [str ''comment_id'' \<mapsto> get comment (str ''comment_id''),
                          str ''text'' \<mapsto> PStr text,
                          str ''author'' \<mapsto> get comment (str ''author''),
                          str ''published_at'' \<mapsto> get comment (str ''published_at''),
                          str ''extracted_at'' \<mapsto> PStr (isoformat now @ str ''Z'')])
      | _ \<Rightarrow> Inl TypeError)"

text \<open>
  \<open>analyze_comments\<close> (lines 145-164). \<open>clock k\<close> is what \<open>datetime.utcnow()\<close> returns
  the \<open>k\<close>-th time the analyzer reads it, which it does once for each record it builds.
\<close>

fun analyze_loop ::
  "chartab \<Rightarrow> (nat \<Rightarrow> datetime) \<Rightarrow> pydict list \<Rightarrow> pydict list \<Rightarrow> error + pydict list" where
  "analyze_loop T clock [] events = Inr events"
| "analyze_loop T clock (comment # comments) events =
     (case extract_event_info T (clock (length events)) comment of
        Inl err \<Rightarrow> Inl err
      | Inr None \<Rightarrow> analyze_loop T clock comments events
      | Inr (Some event_info) \<Rightarrow> analyze_loop T clock comments (events @ [event_info]))"

definition analyze_comments ::
  "chartab \<Rightarrow> (nat \<Rightarrow> datetime) \<Rightarrow> pydict list \<Rightarrow> error + pydict list" where
  "analyze_comments T clock comments = analyze_loop T clock comments []"


section \<open>YouTubeCommentFetcher (src/fetcher.py)\<close>

text \<open>
  The YouTube Data API is outside the repository. A request is answered by the world the
  program runs in, and the answer may depend on everything that happened before: the API
  is a function from a request and the state of the world to a response and the next
  state. The model keeps of a request what the code puts into it, and of a response what
  the code reads from it.
\<close>

datatype request =
    CommentThreads ustr int "ustr option"
  | Channels ustr
  | PlaylistItems ustr int
  | Videos "ustr list"
  | SearchKeyword ustr int "ustr option"
  | SearchCategory ustr int "ustr option"

text \<open>
  The items of a response. \<open>Thread\<close>: the id of a top-level comment with its
  \<open>textDisplay\<close>, \<open>authorDisplayName\<close> and \<open>publishedAt\<close>. \<open>Found\<close>: a search result,
  with whether its kind is \<^verbatim>\<open>youtube#video\<close> and its video id. \<open>Upload\<close>: the video id
  of a playlist item. \<open>Channel\<close>: the uploads playlist of a channel. \<open>Video\<close>: the id of a
  video, its \<open>int(commentCount)\<close> (0 when absent) and its \<open>publishedAt\<close> (the empty
  string when absent). \<open>Malformed\<close>: an item on which the code's subscripts or \<open>int()\<close>
  raise.
\<close>

datatype item =
    Thread pyval pyval pyval pyval
  | Found bool ustr
  | Upload ustr
  | Channel ustr
  | Video ustr int pyval
  | Malformed

text \<open>
  A response that \<open>execute()\<close> returns: its \<open>items\<close>, when it has that key, and its
  \<open>nextPageToken\<close>, when it has one. \<open>None\<close> as a response is an \<open>execute()\<close> that raises
  (\<open>HttpError\<close> or anything else).
\<close>

record page =
  items :: "item list option"
  nextPageToken :: "ustr option"

type_synonym 'w api = "request \<Rightarrow> 'w \<Rightarrow> page option \<times> 'w"

text \<open>\<open>xs[:n]\<close> of Python, also for a negative \<open>n\<close>.\<close>

definition slice_to :: "'a list \<Rightarrow> int \<Rightarrow> 'a list" where
  "slice_to xs n = (if 0 \<le> n then take (nat n) xs else take (length xs - nat (- n)) xs)"

subsection \<open>get\_video\_comments (lines 25-95)\<close>

definition comment_of :: "pyval \<Rightarrow> pyval \<Rightarrow> pyval \<Rightarrow> pyval \<Rightarrow> pydict" where
  "comment_of cid text author published =
     [str ''comment_id'' \<mapsto> cid, str ''text'' \<mapsto> text, str ''author'' \<mapsto> author,
      str ''published_at'' \<mapsto> published]"

text \<open>
  The \<open>for\<close> loop over the items of one page (lines 55-65); \<open>None\<close> when an item raises.
\<close>

fun append_threads :: "int \<Rightarrow> pydict list \<Rightarrow> item list \<Rightarrow> pydict list option" where
  "append_threads max_results comments [] = Some comments"
| "append_threads max_results comments (it # its) =
     (if int (length comments) \<ge> max_results then Some comments
      else case it of
        Thread cid text author published \<Rightarrow>
          append_threads max_results (comments @ [comment_of cid text author published]) its
      | _ \<Rightarrow> None)"

text \<open>
  The \<open>while\<close> loop (lines 54-79), entered with the response in hand. Every exception is
  caught and turned into the result \<open>[]\<close> (lines 84-95). The loop goes on for as long
  as the API hands out page tokens without filling the budget, so it need not return.
\<close>

partial_function (option) comments_loop ::
  "'w api \<Rightarrow> ustr \<Rightarrow> int \<Rightarrow> pydict list \<Rightarrow> page \<Rightarrow> 'w \<Rightarrow> (pydict list \<times> 'w) option" where
  "comments_loop A video_id max_results comments response w =
     (if int (length comments) < max_results \<and> items response \<noteq> None then
        (case append_threads max_results comments (the (items response)) of
           None \<Rightarrow> Some ([], w)
         | Some comments' \<Rightarrow>
             (case nextPageToken response of
                None \<Rightarrow> Some (comments', w)
              | Some token \<Rightarrow>
                  if int (length comments') < max_results then
                    (case A (CommentThreads video_id
                               (min (max_results - int (length comments')) 100) (Some token)) w of
                       (None, w') \<Rightarrow> Some ([], w')
                     | (Some response', w') \<Rightarrow>
                         comments_loop A video_id max_results comments' response' w')
                  else Some (comments', w)))
      else Some (comments, w))"

definition get_video_comments ::
  "'w api \<Rightarrow> ustr \<Rightarrow> int \<Rightarrow> 'w \<Rightarrow> (pydict list \<times> 'w) option" where
  "get_video_comments A video_id max_results w =
     (case A (CommentThreads video_id (min max_results 100) None) w of
        (None, w') \<Rightarrow> Some ([], w')
      | (Some response, w') \<Rightarrow> comments_loop A video_id max_results [] response w')"

subsection \<open>get\_channel\_latest\_videos (lines 97-149)\<close>

fun uploads_of :: "item list \<Rightarrow> ustr list option" where
  "uploads_of [] = Some []"
| "uploads_of (Upload v # its) = map_option ((#) v) (uploads_of its)"
| "uploads_of (_ # its) = None"

definition get_channel_latest_videos :: "'w api \<Rightarrow> ustr \<Rightarrow> int \<Rightarrow> 'w \<Rightarrow> ustr list \<times> 'w" where
  "get_channel_latest_videos A channel_id max_results w =
     (case A (Channels channel_id) w of
        (None, w') \<Rightarrow> ([], w')
      | (Some channel_response, w') \<Rightarrow>
          (case items channel_response of
             None \<Rightarrow> ([], w')
           | Some [] \<Rightarrow> ([], w')
           | Some (Channel uploads_playlist_id # _) \<Rightarrow>
               (case A (PlaylistItems uploads_playlist_id max_results) w' of
                  (None, w'') \<Rightarrow> ([], w'')
                | (Some response, w'') \<Rightarrow>
                    (case uploads_of (case items response of None \<Rightarrow> [] | Some its \<Rightarrow> its) of
                       None \<Rightarrow> ([], w'')
                     | Some video_ids \<Rightarrow> (video_ids, w'')))
           | Some (_ # _) \<Rightarrow> ([], w')))"

subsection \<open>get\_video\_statistics (lines 151-198)\<close>

text \<open>
  Of the statistics of a video the program reads \<open>comment_count\<close> and \<open>published_at\<close>
  only; \<open>view_count\<close> and \<open>title\<close> are left out.
\<close>

record video_stats =
  stat_comment_count :: int
  stat_published_at :: pyval

type_synonym statistics = "ustr \<rightharpoonup> video_stats"

fun add_statistics :: "item list \<Rightarrow> statistics \<Rightarrow> statistics option" where
  "add_statistics [] statistics = Some statistics"
| "add_statistics (Video video_id n published # its) statistics =
     add_statistics its
       (statistics(video_id \<mapsto> \<lparr>stat_comment_count = n, stat_published_at = published\<rparr>))"
| "add_statistics (_ # its) statistics = None"

text \<open>
  The loop over \<open>range(0, len(video_ids), 50)\<close> runs once for each batch of 50 ids;
  \<open>n\<close> counts the batches that are left.
\<close>

fun statistics_batches ::
  "'w api \<Rightarrow> nat \<Rightarrow> ustr list \<Rightarrow> statistics \<Rightarrow> 'w \<Rightarrow> statistics \<times> 'w" where
  "statistics_batches A 0 video_ids statistics w = (statistics, w)"
| "statistics_batches A (Suc n) video_ids statistics w =
     (case A (Videos (take 50 video_ids)) w of
        (None, w') \<Rightarrow> (Map.empty, w')
      | (Some response, w') \<Rightarrow>
          (case add_statistics (case items response of None \<Rightarrow> [] | Some its \<Rightarrow> its) statistics of
             None \<Rightarrow> (Map.empty, w')
           | Some statistics' \<Rightarrow> statistics_batches A n (drop 50 video_ids) statistics' w'))"

definition get_video_statistics :: "'w api \<Rightarrow> ustr list \<Rightarrow> 'w \<Rightarrow> statistics \<times> 'w" where
  "get_video_statistics A video_ids w =
     (if video_ids = [] then (Map.empty, w)
      else statistics_batches A ((length video_ids + 49) div 50) video_ids Map.empty w)"


subsection \<open>The search loops (lines 231-250 and 339-358)\<close>

text \<open>
  \<open>search_videos_by_keyword\<close> and \<open>search_videos_by_category\<close> page through the search
  results with the same loop; they differ in the request (\<open>q\<close> or \<open>videoCategoryId\<close>),
  here \<open>req\<close>, and in the limit. An exception ends either function with \<open>[]\<close>.
\<close>

fun append_found :: "int \<Rightarrow> ustr list \<Rightarrow> item list \<Rightarrow> ustr list option" where
  "append_found limit video_ids [] = Some video_ids"
| "append_found limit video_ids (it # its) =
     (if int (length video_ids) \<ge> limit then Some video_ids
      else case it of
        Found is_video video_id \<Rightarrow>
          append_found limit (if is_video then video_ids @ [video_id] else video_ids) its
      | _ \<Rightarrow> None)"

partial_function (option) search_loop ::
  "'w api \<Rightarrow> (int \<Rightarrow> ustr option \<Rightarrow> request) \<Rightarrow> int \<Rightarrow> ustr list \<Rightarrow> page \<Rightarrow> 'w \<Rightarrow>
   (ustr list \<times> 'w) option" where
  "search_loop A req limit video_ids response w =
     (if int (length video_ids) < limit \<and> items response \<noteq> None then
        (case append_found limit video_ids (the (items response)) of
           None \<Rightarrow> Some ([], w)
         | Some video_ids' \<Rightarrow>
             (case nextPageToken response of
                None \<Rightarrow> Some (video_ids', w)
              | Some token \<Rightarrow>
                  if int (length video_ids') < limit then
                    (case A (req (min (limit - int (length video_ids')) 50) (Some token)) w of
                       (None, w') \<Rightarrow> Some ([], w')
                     | (Some response', w') \<Rightarrow> search_loop A req limit video_ids' response' w')
                  else Some (video_ids', w)))
      else Some (video_ids, w))"

subsection \<open>The filter of search\_videos\_by\_keyword (lines 260-297)\<close>

record candidate =
  cand_video_id :: ustr
  cand_comment_count :: int
  cand_days_old :: int
  cand_published_at :: pyval

text \<open>
  \<open>age\<close> stands for lines 277-278: the whole days between \<open>now\<close>, read at line 261, and
  the time that \<open>datetime.fromisoformat\<close> parses from \<open>published_at\<close>; \<open>None\<close> when
  that raises. Both depend on the Python version and on the clock.
\<close>

fun filter_videos ::
  "(pyval \<Rightarrow> int option) \<Rightarrow> statistics \<Rightarrow> int \<Rightarrow> int \<Rightarrow> ustr list \<Rightarrow> candidate list" where
  "filter_videos age statistics min_comment_count days_old_max [] = []"
| "filter_videos age statistics min_comment_count days_old_max (video_id # rest) =
     (case statistics video_id of
        None \<Rightarrow> filter_videos age statistics min_comment_count days_old_max rest
      | Some stats \<Rightarrow>
          if stat_comment_count stats < min_comment_count
          then filter_videos age statistics min_comment_count days_old_max rest
          else (case age (stat_published_at stats) of
             None \<Rightarrow> filter_videos age statistics min_comment_count days_old_max rest
           | Some days_old \<Rightarrow>
               if days_old > days_old_max
               then filter_videos age statistics min_comment_count days_old_max rest
               else \<lparr>cand_video_id = video_id, cand_comment_count = stat_comment_count stats,
                      cand_days_old = days_old, cand_published_at = stat_published_at stats\<rparr>
                    # filter_videos age statistics min_comment_count days_old_max rest))"

text \<open>
  \<open>filtered_videos.sort(key=lambda x: (-x['comment_count'], x['days_old']))\<close>: a stable
  sort by a pair of integers, which Python compares lexicographically.
\<close>

definition rank_videos :: "candidate list \<Rightarrow> candidate list" where
  "rank_videos filtered_videos =
     sort_key (\<lambda>x. (- cand_comment_count x, cand_days_old x)) filtered_videos"

definition select_videos ::
  "(pyval \<Rightarrow> int option) \<Rightarrow> statistics \<Rightarrow> int \<Rightarrow> int \<Rightarrow> int \<Rightarrow> ustr list \<Rightarrow> ustr list" where
  "select_videos age statistics min_comment_count days_old_max max_videos candidate_video_ids =
     map cand_video_id
       (slice_to (rank_videos (filter_videos age statistics min_comment_count days_old_max
                                 candidate_video_ids)) max_videos)"

subsection \<open>search\_videos\_by\_keyword (lines 200-311) and search\_videos\_by\_category (lines 313-372)\<close>

definition search_videos_by_keyword ::
  "'w api \<Rightarrow> (pyval \<Rightarrow> int option) \<Rightarrow> ustr \<Rightarrow> int \<Rightarrow> int \<Rightarrow> int \<Rightarrow> 'w \<Rightarrow> (ustr list \<times> 'w) option" where
  "search_videos_by_keyword A age keyword max_videos min_comment_count days_old_max w =
     (let search_limit = max_videos * 3 in
      case A (SearchKeyword keyword (min search_limit 50) None) w of
        (None, w1) \<Rightarrow> Some ([], w1)
      | (Some response, w1) \<Rightarrow>
          (case search_loop A (SearchKeyword keyword) search_limit [] response w1 of
             None \<Rightarrow> None
           | Some (candidate_video_ids, w2) \<Rightarrow>
               if candidate_video_ids = [] then Some ([], w2)
               else (case get_video_statistics A candidate_video_ids w2 of
                 (statistics, w3) \<Rightarrow>
                   Some (select_videos age statistics min_comment_count days_old_max max_videos
                           candidate_video_ids, w3))))"

definition search_videos_by_category ::
  "'w api \<Rightarrow> ustr \<Rightarrow> int \<Rightarrow> 'w \<Rightarrow> (ustr list \<times> 'w) option" where
  "search_videos_by_category A category_id max_videos w =
     (case A (SearchCategory category_id (min max_videos 50) None) w of
        (None, w1) \<Rightarrow> Some ([], w1)
      | (Some response, w1) \<Rightarrow>
          search_loop A (SearchCategory category_id) max_videos [] response w1)"

subsection \<open>fetch\_comments (lines 374-443)\<close>

text \<open>
  The three branches that go through several videos run the same loop (lines 398-404,
  418-425 and 433-440): fetch the comments of one video after the other, each with the
  budget \<open>max_results // len(video_ids) + 1\<close>, and leave the loop once \<open>max_results\<close>
  comments are there; the result is \<open>all_comments[:max_results]\<close>.
\<close>

fun collect ::
  "'w api \<Rightarrow> int \<Rightarrow> int \<Rightarrow> ustr list \<Rightarrow> pydict list \<Rightarrow> 'w \<Rightarrow> (pydict list \<times> 'w) option" where
  "collect A comments_per_video max_results [] all_comments w = Some (all_comments, w)"
| "collect A comments_per_video max_results (vid # vids) all_comments w =
     (case get_video_comments A vid comments_per_video w of
        None \<Rightarrow> None
      | Some (comments, w1) \<Rightarrow>
          if int (length (all_comments @ comments)) \<ge> max_results
          then Some (all_comments @ comments, w1)
          else collect A comments_per_video max_results vids (all_comments @ comments) w1)"

definition aggregate ::
  "'w api \<Rightarrow> ustr list \<Rightarrow> int \<Rightarrow> 'w \<Rightarrow> (pydict list \<times> 'w) option" where
  "aggregate A video_ids max_results w =
     (case collect A (max_results div int (length video_ids) + 1) max_results video_ids [] w of
        None \<Rightarrow> None
      | Some (all_comments, w1) \<Rightarrow> Some (slice_to all_comments max_results, w1))"

text \<open>An argument counts as given when it is neither \<open>None\<close> nor the empty string.\<close>

definition truthy :: "ustr option \<Rightarrow> bool" where
  "truthy x = (case x of None \<Rightarrow> False | Some s \<Rightarrow> s \<noteq> [])"

definition fetch_comments ::
  "'w api \<Rightarrow> (pyval \<Rightarrow> int option) \<Rightarrow> ustr option \<Rightarrow> ustr option \<Rightarrow> ustr option \<Rightarrow> ustr option \<Rightarrow>
   int \<Rightarrow> int \<Rightarrow> int \<Rightarrow> int \<Rightarrow> 'w \<Rightarrow> (pydict list \<times> 'w) option" where
  "fetch_comments A age video_id channel_id category_id search_keyword
       max_videos max_results min_comment_count days_old_max w =
     (if truthy video_id then get_video_comments A (the video_id) max_results w
      else if truthy channel_id then
        (case get_channel_latest_videos A (the channel_id) 5 w of
           (video_ids, w1) \<Rightarrow> aggregate A video_ids max_results w1)
      else if truthy search_keyword then
        (case search_videos_by_keyword A age (the search_keyword) max_videos
                min_comment_count days_old_max w of
           None \<Rightarrow> None
         | Some (video_ids, w1) \<Rightarrow>
             if video_ids = [] then Some ([], w1) else aggregate A video_ids max_results w1)
      else if truthy category_id then
        (case search_videos_by_category A (the category_id) max_videos w of
           None \<Rightarrow> None
         | Some (video_ids, w1) \<Rightarrow>
             if video_ids = [] then Some ([], w1) else aggregate A video_ids max_results w1)
      else Some ([], w))"

section \<open>main (main.py)\<close>

text \<open>
  The file \<open>data/events.json\<close>: missing, unreadable (\<open>open\<close> or the decoding raises), not
  JSON, JSON that is not a list, or a JSON list.
\<close>

datatype file_state = Missing | Unreadable | NotJson | JsonOther | JsonList "elem list"

definition load_existing_events :: "file_state \<Rightarrow> elem list" where
  "load_existing_events data_file =
     (case data_file of
        Missing \<Rightarrow> []
      | Unreadable \<Rightarrow> []
      | NotJson \<Rightarrow> []
      | JsonOther \<Rightarrow> []
      | JsonList data \<Rightarrow> data)"

text \<open>
  \<open>save_events\<close> (lines 51-73). Whether the write succeeds is up to the file system:
  \<open>write_error = None\<close> when it does, and otherwise the state the failed write leaves the
  file in.
\<close>

definition save_events :: "file_state option \<Rightarrow> pydict list \<Rightarrow> bool \<times> file_state" where
  "save_events write_error events =
     (case write_error of
        None \<Rightarrow> (True, JsonList (map Obj events))
      | Some broken \<Rightarrow> (False, broken))"

text \<open>
  The environment variables. An integer variable is unset, holds something \<open>int()\<close>
  accepts, or holds something on which \<open>int()\<close> raises \<open>ValueError\<close>.
\<close>

datatype intvar = Unset | Parsed int | Unparsable

record environ =
  env_YOUTUBE_API_KEY :: "ustr option"
  env_VIDEO_ID :: "ustr option"
  env_CHANNEL_ID :: "ustr option"
  env_CATEGORY_ID :: "ustr option"
  env_SEARCH_KEYWORD :: "ustr option"
  env_MAX_VIDEOS :: intvar
  env_MAX_RESULTS :: intvar
  env_MIN_COMMENT_COUNT :: intvar
  env_DAYS_OLD_MAX :: intvar

definition getenv_int :: "intvar \<Rightarrow> int \<Rightarrow> int option" where
  "getenv_int v dflt = (case v of Unset \<Rightarrow> Some dflt | Parsed n \<Rightarrow> Some n | Unparsable \<Rightarrow> None)"

text \<open>
  What the run depends on besides the environment variables, the file and the API: the
  tables of the runtime, whether \<open>build\<close> returns an API client for the key, the age of a
  publication date, the clock of the analyzer, and the file system.
\<close>

record 'w world =
  tables :: chartab
  build :: "ustr \<Rightarrow> 'w api option"
  age_days :: "pyval \<Rightarrow> int option"
  utcnow :: "nat \<Rightarrow> datetime"
  write_error :: "file_state option"

text \<open>
  How the process ends: \<open>Exit n\<close> when \<open>main\<close> returns \<open>n\<close>, \<open>Uncaught\<close> when an
  exception leaves \<open>main\<close>.
\<close>

datatype outcome = Exit int | Uncaught error

text \<open>
  \<open>main\<close> (lines 103-177) returns the outcome, the file and the world as the run leaves
  them; \<open>None\<close> when a loop of the fetcher does not return. The default keyword is the
  string of line 110.
\<close>

definition main ::
  "'w world \<Rightarrow> environ \<Rightarrow> file_state \<Rightarrow> 'w \<Rightarrow> (outcome \<times> file_state \<times> 'w) option" where
  "main W env data_file w =
     (let api_key = env_YOUTUBE_API_KEY env;
          video_id = env_VIDEO_ID env;
          channel_id = env_CHANNEL_ID env;
          category_id = env_CATEGORY_ID env;
          search_keyword =
            (case env_SEARCH_KEYWORD env of None \<Rightarrow> Some [21103, 26989] | Some s \<Rightarrow> Some s)
      in
      case (getenv_int (env_MAX_VIDEOS env) 20, getenv_int (env_MAX_RESULTS env) 100,
            getenv_int (env_MIN_COMMENT_COUNT env) 10, getenv_int (env_DAYS_OLD_MAX env) 7) of
        (Some max_videos, Some max_results, Some min_comment_count, Some days_old_max) \<Rightarrow>
          if \<not> truthy api_key then Some (Exit 1, data_file, w)
          else
            let existing_events = load_existing_events data_file in
            (case build W (the api_key) of
               None \<Rightarrow> Some (Exit 1, data_file, w)
             | Some A \<Rightarrow>
                 (case fetch_comments A (age_days W) video_id channel_id category_id
                         (if \<not> truthy video_id \<and> \<not> truthy channel_id \<and> \<not> truthy category_id
                          then search_keyword else None)
                         max_videos max_results min_comment_count days_old_max w of
                    None \<Rightarrow> None
                  | Some (comments, w1) \<Rightarrow>
                      if comments = [] then Some (Exit 0, data_file, w1)
                      else (case analyze_comments (tables W) (utcnow W) comments of
                         Inl err \<Rightarrow> Some (Exit 1, data_file, w1)
                       | Inr new_events \<Rightarrow>
                           if new_events = [] then Some (Exit 0, data_file, w1)
                           else (case merge_events existing_events (map Obj new_events) of
                              Inl err \<Rightarrow> Some (Exit 1, data_file, w1)
                            | Inr merged_events \<Rightarrow>
                                if length merged_events = length existing_events
                                then Some (Exit 0, data_file, w1)
                                else (case save_events (write_error W) merged_events of
                                   (True, data_file') \<Rightarrow> Some (Exit 0, data_file', w1)
                                 | (False, data_file') \<Rightarrow> Some (Exit 1, data_file', w1))))))
      | _ \<Rightarrow> Some (Uncaught ValueError, data_file, w))"

section \<open>Notions used in the statements\<close>

text \<open>
  \<open>has_id k r\<close>: the record \<open>r\<close> carries the comment id \<open>k\<close>, up to the equality of keys
  of Python; \<open>elem_has_id\<close> is the same for an element of an input list. \<open>canon\<close> maps
  the keys that Python identifies to one representative.
\<close>

definition has_id :: "pyval \<Rightarrow> pydict \<Rightarrow> bool" where
  "has_id k d = (case d (str ''comment_id'') of None \<Rightarrow> False | Some v \<Rightarrow> py_eq v k)"

definition elem_has_id :: "pyval \<Rightarrow> elem \<Rightarrow> bool" where
  "elem_has_id k e = (case comment_id_of e of Inl err \<Rightarrow> False | Inr v \<Rightarrow> py_eq v k)"

fun canon :: "pyval \<Rightarrow> pyval" where
  "canon (PBool b) = PInt (if b then 1 else 0)"
| "canon v = v"

text \<open>Reading the mapping at a key, and the two invariants of the mapping.\<close>

definition lookup :: "iddict \<Rightarrow> pyval \<Rightarrow> pydict option" where
  "lookup d k = map_option snd (find (\<lambda>p. py_eq (fst p) k) d)"

definition keys_distinct :: "iddict \<Rightarrow> bool" where
  "keys_distinct d = distinct (map (canon \<circ> fst) d)"

definition keyed :: "iddict \<Rightarrow> bool" where
  "keyed d = list_all (\<lambda>p. has_id (fst p) (snd p)) d"

text \<open>
  An EventRecord as the data model has it: an object with a \<open>comment_id\<close> whose
  \<open>extracted_at\<close>, when present, is a string.
\<close>

definition event_record :: "elem \<Rightarrow> bool" where
  "event_record e = (case e of
      Atom v \<Rightarrow> False
    | Obj d \<Rightarrow> d (str ''comment_id'') \<noteq> None \<and>
        (case d (str ''extracted_at'') of None \<Rightarrow> True | Some (PStr s) \<Rightarrow> True | Some _ \<Rightarrow> False))"

definition key_lt :: "pydict \<Rightarrow> pydict \<Rightarrow> bool" where
  "key_lt x y = (py_lt (extracted_at_key x) (extracted_at_key y) = Some True)"

text \<open>
  What the URL pattern matches, said without regular expressions: the text contains
  \<^verbatim>\<open>http://\<close>, \<^verbatim>\<open>https://\<close> or \<^verbatim>\<open>www.\<close> followed by a character that is not white
  space, or it contains one of \<^verbatim>\<open>.com\<close>, \<^verbatim>\<open>.net\<close>, \<^verbatim>\<open>.org\<close>, \<^verbatim>\<open>.jp\<close>.
\<close>

definition url_like :: "chartab \<Rightarrow> ustr \<Rightarrow> bool" where
  "url_like T s =
     ((\<exists>c. \<not> isspace T c \<and>
         (contains s (str ''http://'' @ [c]) \<or> contains s (str ''https://'' @ [c]) \<or>
          contains s (str ''www.'' @ [c]))) \<or>
      contains s (str ''.com'') \<or> contains s (str ''.net'') \<or> contains s (str ''.org'') \<or>
      contains s (str ''.jp''))"

section \<open>Example data\<close>

text \<open>
  Tables for the examples: the white space of Python, the ASCII digits, and lower-casing of
  the ASCII letters. On the code points that occur in the examples (ASCII, kana and kanji)
  they agree with the tables of Python.
\<close>

definition demo_tab :: chartab where
  "demo_tab =
     \<lparr>isspace = (\<lambda>c. c \<in> {9, 10, 11, 12, 13, 28, 29, 30, 31, 32, 133, 160, 5760, 8232, 8233,
                           8239, 8287, 12288} \<or> (8192 \<le> c \<and> c \<le> 8202)),
      isdigit = (\<lambda>c. 48 \<le> c \<and> c \<le> 57),
      lower = map (\<lambda>c. if 65 \<le> c \<and> c \<le> 90 then c + 32 else c)\<rparr>"

definition demo_now :: datetime where
  "demo_now = \<lparr>year = 2024, month = 5, day = 17, hour = 9, minute = 30, second = 0,
                microsecond = 123456\<rparr>"

text \<open>Three stored records; \<open>fresh_a\<close> has the comment id of \<open>stored_a\<close>.\<close>

definition stored_a :: pydict where
  "stored_a = [str ''comment_id'' \<mapsto> PStr (str ''a''), str ''text'' \<mapsto> PStr (str ''old''),
               str ''extracted_at'' \<mapsto> PStr (str ''2024-05-01T10:00:00Z'')]"

definition stored_b :: pydict where
  "stored_b = [str ''comment_id'' \<mapsto> PStr (str ''b''), str ''text'' \<mapsto> PStr (str ''other''),
               str ''extracted_at'' \<mapsto> PStr (str ''2024-05-02T10:00:00Z'')]"

definition fresh_a :: pydict where
  "fresh_a = [str ''comment_id'' \<mapsto> PStr (str ''a''), str ''text'' \<mapsto> PStr (str ''new''),
              str ''extracted_at'' \<mapsto> PStr (str ''2024-05-03T10:00:00.5Z'')]"

text \<open>A record without \<open>extracted_at\<close> and one whose \<open>extracted_at\<close> is the empty string.\<close>

definition undated :: pydict where
  "undated = [str ''comment_id'' \<mapsto> PStr (str ''a'')]"

definition blank_dated :: pydict where
  "blank_dated = [str ''comment_id'' \<mapsto> PStr (str ''b''), str ''extracted_at'' \<mapsto> PStr []]"

text \<open>
  Comments: one with a URL in front of an event keyword, one with event keywords and no
  date (ofukai wo kaisai shimasu), and the announcement of a meeting next Saturday
  (raishuu no doyoubi ni Shinjuku de ofukai wo kaisai shimasu).
\<close>

definition url_comment :: pydict where
  "url_comment = comment_of (PStr (str ''c1'')) (PStr (str ''http://x.com '' @ [38283, 20652]))
     (PStr (str ''alice'')) (PStr (str ''2024-05-01T00:00:00Z''))"

definition meetup_text :: ustr where
  "meetup_text = [12458, 12501, 20250, 12434, 38283, 20652, 12375, 12414, 12377]"

definition meetup_comment :: pydict where
  "meetup_comment = comment_of (PStr (str ''c3'')) (PStr meetup_text)
     (PStr (str ''bob'')) (PStr (str ''2024-05-02T00:00:00Z''))"

definition offkai_text :: ustr where
  "offkai_text = [26469, 36913, 12398, 22303, 26332, 26085, 12395, 26032, 23487, 12391, 12458,
                  12501, 20250, 12434, 38283, 20652, 12375, 12414, 12377]"

definition offkai_comment :: pydict where
  "offkai_comment = comment_of (PStr (str ''Ugx1'')) (PStr offkai_text)
     (PStr (str ''carol'')) (PStr (str ''2024-05-16T12:00:00Z''))"

lemma py_eq_canon: "py_eq a b = (canon a = canon b)"
  by (cases a; cases b) (auto simp: py_eq_def)

lemma py_eq_refl: "py_eq a a" by (simp add: py_eq_canon)
lemma py_eq_sym: "py_eq a b = py_eq b a" by (auto simp: py_eq_canon)
lemma py_eq_trans: "py_eq a b \<Longrightarrow> py_eq b c \<Longrightarrow> py_eq a c" by (simp add: py_eq_canon)

lemma find_app:
  "find P (xs @ ys) = (case find P xs of None \<Rightarrow> find P ys | Some x \<Rightarrow> Some x)"
  by (induction xs) auto

lemma find_SomeD: "find P xs = Some x \<Longrightarrow> x \<in> set xs \<and> P x"
  by (induction xs) (auto split: if_splits)

lemma mset_singleD: "mset ys = {#r#} \<Longrightarrow> ys = [r]"
  by (cases ys) auto

lemma lookup_Nil: "lookup [] k = None" by (simp add: lookup_def)

lemma lookup_Cons: "lookup ((k', v) # d) k = (if py_eq k' k then Some v else lookup d k)"
  by (simp add: lookup_def)

lemma lookup_dict_set:
  "lookup (dict_set d k v) k' = (if py_eq k k' then Some v else lookup d k')"
proof (induction d)
  case Nil
  show ?case by (simp add: lookup_Cons lookup_Nil)
next
  case (Cons p d)
  obtain k0 v0 where p: "p = (k0, v0)" by (cases p)
  show ?case using Cons.IH
    by (auto simp: p lookup_Cons py_eq_canon)
qed

lemma dict_set_keys: "canon ` fst ` set (dict_set d k v) = insert (canon k) (canon ` fst ` set d)"
proof (induction d)
  case Nil show ?case by simp
next
  case (Cons p d)
  obtain k0 v0 where p: "p = (k0, v0)" by (cases p)
  show ?case using Cons.IH by (auto simp: p py_eq_canon)
qed

lemma dict_set_distinct: "keys_distinct d \<Longrightarrow> keys_distinct (dict_set d k v)"
proof (induction d)
  case Nil show ?case by (simp add: keys_distinct_def)
next
  case (Cons p d)
  obtain k0 v0 where p: "p = (k0, v0)" by (cases p)
  from Cons.prems have d: "keys_distinct d" and k0: "canon k0 \<notin> canon ` fst ` set d"
    by (auto simp: keys_distinct_def p)
  show ?case
  proof (cases "py_eq k0 k")
    case True
    with Cons.prems show ?thesis by (simp add: p keys_distinct_def)
  next
    case False
    from Cons.IH [OF d] have "distinct (map (canon \<circ> fst) (dict_set d k v))"
      by (simp add: keys_distinct_def)
    moreover from k0 False have "canon k0 \<notin> canon ` fst ` set (dict_set d k v)"
      by (simp add: dict_set_keys py_eq_canon)
    ultimately show ?thesis using False
      by (simp add: p keys_distinct_def image_comp)
  qed
qed

lemma dict_set_keyed: "keyed d \<Longrightarrow> has_id k v \<Longrightarrow> keyed (dict_set d k v)"
proof (induction d)
  case Nil then show ?case by (simp add: keyed_def list_all_iff)
next
  case (Cons p d)
  obtain k0 v0 where p: "p = (k0, v0)" by (cases p)
  from Cons.prems have d: "keyed d" by (simp add: keyed_def list_all_iff)
  have hk: "py_eq k0 k \<Longrightarrow> has_id k0 v"
    using Cons.prems(2) by (auto simp: has_id_def py_eq_canon split: option.splits)
  show ?case using Cons.IH [OF d Cons.prems(2)] Cons.prems(1) hk
    by (auto simp: p keyed_def list_all_iff)
qed

lemma comment_id_has_id: "comment_id_of e = Inr k \<Longrightarrow> has_id k (the_dict e)"
  by (cases e) (auto simp: has_id_def py_eq_refl split: option.splits)

text \<open>The record that the mapping holds for a key after a run of insertions.\<close>

lemma insert_events_lookup:
  "insert_events es d = Inr d' \<Longrightarrow>
   lookup d' k = (case find (elem_has_id k) (rev es) of
                    Some e \<Rightarrow> Some (the_dict e) | None \<Rightarrow> lookup d k)"
proof (induction es arbitrary: d)
  case Nil then show ?case by simp
next
  case (Cons e es)
  from Cons.prems obtain k0 where k0: "comment_id_of e = Inr k0"
    and rest: "insert_events es (dict_set d k0 (the_dict e)) = Inr d'"
    by (auto split: sum.splits)
  have e: "elem_has_id k e = py_eq k0 k" by (simp add: elem_has_id_def k0)
  show ?case using Cons.IH [OF rest]
    by (auto simp: find_app lookup_dict_set e split: option.splits)
qed

lemma insert_events_inv:
  "insert_events es d = Inr d' \<Longrightarrow> keys_distinct d \<Longrightarrow> keyed d \<Longrightarrow> keys_distinct d' \<and> keyed d'"
proof (induction es arbitrary: d)
  case Nil then show ?case by simp
next
  case (Cons e es)
  from Cons.prems(1) obtain k0 where k0: "comment_id_of e = Inr k0"
    and rest: "insert_events es (dict_set d k0 (the_dict e)) = Inr d'"
    by (auto split: sum.splits)
  show ?case
    by (rule Cons.IH [OF rest dict_set_distinct [OF Cons.prems(2)]
          dict_set_keyed [OF Cons.prems(3) comment_id_has_id [OF k0]]])
qed

lemma insert_events_append:
  "insert_events (es @ fs) d =
     (case insert_events es d of Inl err \<Rightarrow> Inl err | Inr d' \<Rightarrow> insert_events fs d')"
  by (induction es arbitrary: d) (auto split: sum.splits)

lemma values_with_id:
  "keys_distinct d \<Longrightarrow> keyed d \<Longrightarrow>
   filter (has_id k) (map snd d) = (case lookup d k of None \<Rightarrow> [] | Some v \<Rightarrow> [v])"
proof (induction d)
  case Nil show ?case by (simp add: lookup_Nil)
next
  case (Cons p d)
  obtain k0 v0 where p: "p = (k0, v0)" by (cases p)
  from Cons.prems have d: "keys_distinct d" "keyed d" and v0: "has_id k0 v0"
    and k0: "canon k0 \<notin> canon ` fst ` set d"
    by (auto simp: keys_distinct_def keyed_def list_all_iff p)
  have same: "has_id k v0 = py_eq k0 k"
    using v0 by (auto simp: has_id_def py_eq_canon split: option.splits)
  show ?case
  proof (cases "py_eq k0 k")
    case True
    have "lookup d k = None"
    proof (cases "lookup d k")
      case (Some v)
      then obtain q where "q \<in> set d" "py_eq (fst q) k"
        by (auto simp: lookup_def dest: find_SomeD)
      with True k0 have False by (auto simp: py_eq_canon image_iff; metis)
      then show ?thesis ..
    qed simp
    with Cons.IH [OF d] True same show ?thesis by (simp add: p lookup_Cons split: option.splits)
  next
    case False
    with Cons.IH [OF d] same show ?thesis by (simp add: p lookup_Cons)
  qed
qed

lemma insert_desc_mset: "mset (insert_desc x ys) = add_mset x (mset ys)"
  by (induction ys) auto

lemma foldr_insert_desc_mset: "mset (foldr insert_desc xs []) = mset xs"
  by (induction xs) (auto simp: insert_desc_mset)

lemma sort_desc_mset: "sort_desc xs = Inr out \<Longrightarrow> mset out = mset xs"
  by (auto simp: sort_desc_def foldr_insert_desc_mset split: if_splits)

lemma filter_singleton_mset:
  assumes "mset out = mset xs" and "filter P xs = [r]"
  shows "filter P out = [r]"
proof -
  from assms(1) have "mset (filter P out) = mset (filter P xs)" by (metis mset_filter)
  with assms(2) show ?thesis by (simp add: mset_singleD)
qed

lemma merge_events_dict:
  assumes "merge_events existing incoming = Inr out"
  obtains d where "insert_events (existing @ incoming) [] = Inr d" and "sort_desc (map snd d) = Inr out"
  using assms by (auto simp: merge_events_def insert_events_append split: sum.splits)

lemma find_has_id_Some:
  assumes "e \<in> set es" and "comment_id_of e = Inr k"
  shows "\<exists>e'. find (elem_has_id k) (rev es) = Some e' \<and> e' \<in> set es \<and> elem_has_id k e'"
proof -
  from assms have "elem_has_id k e" by (simp add: elem_has_id_def py_eq_refl)
  with assms(1) have "find (elem_has_id k) (rev es) \<noteq> None" by (auto simp: find_None_iff)
  then obtain e' where e': "find (elem_has_id k) (rev es) = Some e'" by auto
  then have "e' \<in> set es \<and> elem_has_id k e'" by (auto dest: find_SomeD)
  with e' show ?thesis by blast
qed

lemma elem_has_id_Obj: "elem_has_id k e \<Longrightarrow> e = Obj (the_dict e)"
  by (cases e) (auto simp: elem_has_id_def)

lemma merge_events_one_per_id:
  assumes m: "merge_events existing incoming = Inr out"
    and e: "e \<in> set (existing @ incoming)" and k: "comment_id_of e = Inr k"
  shows "\<exists>r. filter (has_id k) out = [r] \<and>
             find (elem_has_id k) (rev (existing @ incoming)) = Some (Obj r)"
proof -
  from m obtain d where d: "insert_events (existing @ incoming) [] = Inr d"
    and s: "sort_desc (map snd d) = Inr out" by (rule merge_events_dict)
  from insert_events_inv [OF d] have inv: "keys_distinct d" "keyed d"
    by (simp_all add: keys_distinct_def keyed_def list_all_iff)
  from find_has_id_Some [OF e k] obtain e' where
    e': "find (elem_has_id k) (rev (existing @ incoming)) = Some e'" and h: "elem_has_id k e'"
    by blast
  from insert_events_lookup [OF d, of k] e' have "lookup d k = Some (the_dict e')" by simp
  with values_with_id [OF inv, of k] have "filter (has_id k) (map snd d) = [the_dict e']" by simp
  with sort_desc_mset [OF s] have "filter (has_id k) out = [the_dict e']"
    by (rule filter_singleton_mset)
  moreover from e' elem_has_id_Obj [OF h]
  have "find (elem_has_id k) (rev (existing @ incoming)) = Some (Obj (the_dict e'))" by simp
  ultimately show ?thesis by blast
qed

subsection \<open>Returning\<close>

lemma dict_set_values: "snd ` set (dict_set d k v) \<subseteq> insert v (snd ` set d)"
proof (induction d)
  case Nil show ?case by simp
next
  case (Cons p d)
  obtain k0 v0 where p: "p = (k0, v0)" by (cases p)
  show ?case
  proof (cases "py_eq k0 k")
    case True
    then show ?thesis by (auto simp: p)
  next
    case False
    with Cons.IH show ?thesis by (simp add: p) blast
  qed
qed

lemma insert_events_values:
  "insert_events es d = Inr d' \<Longrightarrow> snd ` set d' \<subseteq> the_dict ` set es \<union> snd ` set d"
proof (induction es arbitrary: d)
  case Nil then show ?case by simp
next
  case (Cons e es)
  from Cons.prems obtain k0 where k0: "comment_id_of e = Inr k0"
    and rest: "insert_events es (dict_set d k0 (the_dict e)) = Inr d'"
    by (auto split: sum.splits)
  from Cons.IH [OF rest] dict_set_values [of d k0 "the_dict e"] show ?case by auto
qed

lemma insert_events_returns:
  "list_all event_record es \<Longrightarrow> \<exists>d'. insert_events es d = Inr d'"
proof (induction es arbitrary: d)
  case Nil show ?case by simp
next
  case (Cons e es)
  from Cons.prems obtain k where "comment_id_of e = Inr k"
    by (cases e) (auto simp: event_record_def)
  with Cons show ?case by simp
qed

lemma event_record_key: "event_record e \<Longrightarrow> \<exists>s. extracted_at_key (the_dict e) = PStr s"
  by (cases e) (auto simp: event_record_def extracted_at_key_def get_default_def split: option.splits pyval.splits)

lemma strings_comparable:
  assumes "\<forall>k \<in> set ks. \<exists>s. k = PStr s"
  shows "comparable ks"
proof -
  have "\<not> Option.is_none (py_lt a b)" if "a \<in> set ks" and "b \<in> set ks" for a b
  proof -
    from that assms obtain s t where "a = PStr s" "b = PStr t" by blast
    then show ?thesis by simp
  qed
  then show ?thesis by (simp add: comparable_def list_all_iff)
qed

lemma merge_events_returns:
  assumes "list_all event_record (existing @ incoming)"
  shows "\<exists>out. merge_events existing incoming = Inr out"
proof -
  from insert_events_returns [OF assms] obtain d
    where d: "insert_events (existing @ incoming) [] = Inr d" by blast
  from insert_events_values [OF d] have vals: "snd ` set d \<subseteq> the_dict ` set (existing @ incoming)"
    by simp
  have "\<exists>s. k = PStr s" if "k \<in> set (map extracted_at_key (map snd d))" for k
  proof -
    from that obtain v where "v \<in> snd ` set d" and k: "k = extracted_at_key v" by auto
    with vals obtain e where "e \<in> set (existing @ incoming)" and v: "v = the_dict e" by blast
    with assms have "event_record e" by (simp add: list_all_iff del: set_append)
    then show ?thesis unfolding k v by (rule event_record_key)
  qed
  then have "\<forall>k \<in> set (map extracted_at_key (map snd d)). \<exists>s. k = PStr s" by blast
  then have "comparable (map extracted_at_key (map snd d))" by (rule strings_comparable)
  with d show ?thesis
    by (auto simp: merge_events_def insert_events_append sort_desc_def split: sum.splits)
qed

subsection \<open>Order of the output\<close>

lemma str_lt_less: "str_lt a b = (a < b)"
  by (induction a b rule: str_lt.induct) auto

lemma py_lt_asym: "py_lt a b = Some True \<Longrightarrow> py_lt b a \<noteq> Some True"
  by (cases a; cases b) (auto simp: str_lt_less)

lemma py_lt_negtrans:
  assumes "py_lt a c = Some True" and "py_lt a b \<noteq> Some True" and "\<not> Option.is_none (py_lt a b)"
  shows "py_lt b c = Some True"
  using assms by (cases a; cases b; cases c) (auto simp: str_lt_less split: if_splits)

lemma insert_desc_set: "set (insert_desc x ys) = insert x (set ys)"
  by (induction ys) auto

lemma insert_desc_sorted:
  assumes "sorted_wrt (\<lambda>a b. \<not> key_lt a b) ys"
    and "\<forall>y \<in> set ys. \<not> Option.is_none (py_lt (extracted_at_key x) (extracted_at_key y))"
  shows "sorted_wrt (\<lambda>a b. \<not> key_lt a b) (insert_desc x ys)"
  using assms
proof (induction ys)
  case Nil show ?case by simp
next
  case (Cons y ys)
  show ?case
  proof (cases "key_lt x y")
    case True
    then have "\<not> key_lt y x" unfolding key_lt_def by (rule py_lt_asym)
    with Cons True show ?thesis by (auto simp: insert_desc_set key_lt_def)
  next
    case False
    have "\<not> key_lt x z" if z: "z \<in> set ys" for z
    proof
      assume "key_lt x z"
      then have "key_lt y z" using False Cons.prems(2)
        unfolding key_lt_def by (auto intro: py_lt_negtrans)
      with z Cons.prems(1) show False by simp
    qed
    with Cons.prems False show ?thesis by (auto simp: key_lt_def)
  qed
qed

lemma foldr_insert_desc_set: "set (foldr insert_desc xs []) = set xs"
  by (induction xs) (auto simp: insert_desc_set)

lemma foldr_insert_desc_sorted:
  assumes "\<forall>x \<in> set xs. \<forall>y \<in> set xs. \<not> Option.is_none (py_lt (extracted_at_key x) (extracted_at_key y))"
  shows "sorted_wrt (\<lambda>a b. \<not> key_lt a b) (foldr insert_desc xs [])"
  using assms
proof (induction xs)
  case Nil show ?case by simp
next
  case (Cons x xs)
  then have "sorted_wrt (\<lambda>a b. \<not> key_lt a b) (foldr insert_desc xs [])" by simp
  moreover from Cons.prems
  have "\<forall>y \<in> set (foldr insert_desc xs []). \<not> Option.is_none (py_lt (extracted_at_key x) (extracted_at_key y))"
    by (simp add: foldr_insert_desc_set)
  ultimately show ?case by (simp add: insert_desc_sorted)
qed

lemma sort_desc_sorted:
  assumes "sort_desc xs = Inr out"
  shows "sorted_wrt (\<lambda>a b. \<not> key_lt a b) out"
proof (cases "length xs \<le> 1")
  case True
  from assms have out: "out = foldr insert_desc xs []" by (auto simp: sort_desc_def split: if_splits)
  from True have "xs = [] \<or> (\<exists>x. xs = [x])" by (cases xs) auto
  with out show ?thesis by auto
next
  case False
  with assms have "\<forall>x \<in> set xs. \<forall>y \<in> set xs. \<not> Option.is_none (py_lt (extracted_at_key x) (extracted_at_key y))"
    and out: "out = foldr insert_desc xs []"
    by (auto simp: sort_desc_def comparable_def list_all_iff split: if_splits)
  then show ?thesis by (simp add: foldr_insert_desc_sorted)
qed

lemma merge_events_sorted:
  assumes "merge_events existing incoming = Inr out"
  shows "sorted_wrt (\<lambda>a b. \<not> key_lt a b) out"
proof -
  from assms obtain d where "insert_events (existing @ incoming) [] = Inr d"
    and "sort_desc (map snd d) = Inr out" by (rule merge_events_dict)
  then show ?thesis by (simp add: sort_desc_sorted)
qed

lemma sorted_desc_index:
  assumes s: "sorted_wrt (\<lambda>a b. \<not> key_lt a b) out"
    and i: "i < length out" and j: "j < length out"
    and a: "extracted_at_key (out ! i) = PStr a" and b: "extracted_at_key (out ! j) = PStr b" and ne: "a \<noteq> b"
  shows "(i < j) = str_lt b a"
proof
  assume "i < j"
  with s j have "\<not> key_lt (out ! i) (out ! j)" by (simp add: sorted_wrt_iff_nth_less)
  with a b have "\<not> a < b" by (simp add: key_lt_def str_lt_less)
  with ne show "str_lt b a" by (simp add: str_lt_less)
next
  assume ba: "str_lt b a"
  show "i < j"
  proof (rule ccontr)
    assume "\<not> i < j"
    moreover from a b ne have "i \<noteq> j" by auto
    ultimately have "j < i" by simp
    with s i have "\<not> key_lt (out ! j) (out ! i)" by (simp add: sorted_wrt_iff_nth_less)
    with a b ba show False by (simp add: key_lt_def)
  qed
qed

text \<open>
  C1. When \<open>merge_events\<close> returns, its output is a rearrangement of the values of the
  mapping that results from assigning, in order, every existing and then every incoming
  record to its \<open>comment_id\<close>. For every comment id that occurs in either input the output
  holds exactly one record with that id: the last record with that id in the existing
  list followed by the incoming list, which is the last incoming record with that id when
  the id occurs in the incoming list. On event records \<open>merge_events\<close> does return.
\<close>

theorem merge_events_last_write_wins:
  "(merge_events existing incoming = Inr out \<longrightarrow>
      (\<exists>d. insert_events (existing @ incoming) [] = Inr d \<and> mset out = mset (map snd d)) \<and>
      (\<forall>e \<in> set (existing @ incoming). \<forall>k. comment_id_of e = Inr k \<longrightarrow>
         (\<exists>r. filter (has_id k) out = [r] \<and>
              find (elem_has_id k) (rev (existing @ incoming)) = Some (Obj r))) \<and>
      (\<forall>e \<in> set incoming. \<forall>k. comment_id_of e = Inr k \<longrightarrow>
         (\<exists>r. filter (has_id k) out = [r] \<and>
              find (elem_has_id k) (rev incoming) = Some (Obj r))))
   \<and> (list_all event_record (existing @ incoming) \<longrightarrow>
        (\<exists>merged. merge_events existing incoming = Inr merged))"
proof (intro conjI impI ballI allI)
  assume m: "merge_events existing incoming = Inr out"
  from m obtain d where d: "insert_events (existing @ incoming) [] = Inr d"
    and s: "sort_desc (map snd d) = Inr out" by (rule merge_events_dict)
  from sort_desc_mset [OF s] d
  show "\<exists>d. insert_events (existing @ incoming) [] = Inr d \<and> mset out = mset (map snd d)"
    by blast
next
  fix e k
  assume "merge_events existing incoming = Inr out" "e \<in> set (existing @ incoming)"
    "comment_id_of e = Inr k"
  then show "\<exists>r. filter (has_id k) out = [r] \<and>
      find (elem_has_id k) (rev (existing @ incoming)) = Some (Obj r)"
    by (rule merge_events_one_per_id)
next
  fix e k
  assume m: "merge_events existing incoming = Inr out" and e: "e \<in> set incoming"
    and k: "comment_id_of e = Inr k"
  from e have "e \<in> set (existing @ incoming)" by simp
  from merge_events_one_per_id [OF m this k] obtain r where
    r: "filter (has_id k) out = [r]"
    and f: "find (elem_has_id k) (rev (existing @ incoming)) = Some (Obj r)" by blast
  from find_has_id_Some [OF e k] obtain e' where "find (elem_has_id k) (rev incoming) = Some e'"
    by blast
  with f have "find (elem_has_id k) (rev incoming) = Some (Obj r)" by (simp add: find_app)
  with r show "\<exists>r. filter (has_id k) out = [r] \<and> find (elem_has_id k) (rev incoming) = Some (Obj r)"
    by blast
next
  assume "list_all event_record (existing @ incoming)"
  then show "\<exists>merged. merge_events existing incoming = Inr merged" by (rule merge_events_returns)
qed

lemmas eval_merge = merge_events_def sort_desc_def comparable_def extracted_at_key_def
  get_default_def py_eq_def str_def

lemma merge_demo: "merge_events [Obj stored_a, Obj stored_b] [Obj fresh_a] = Inr [fresh_a, stored_b]"
  by (simp add: eval_merge stored_a_def stored_b_def fresh_a_def)

text \<open>
  Witness for C1: an incoming record with the id of a stored one takes its place.
\<close>

theorem merge_events_last_write_wins_witness:
  "merge_events [Obj stored_a, Obj stored_b] [Obj fresh_a] = Inr [fresh_a, stored_b] \<and>
   filter (has_id (PStr (str ''a''))) [fresh_a, stored_b] = [fresh_a] \<and>
   list_all event_record ([Obj stored_a, Obj stored_b] @ [Obj fresh_a])"
proof -
  have k: "comment_id_of (Obj fresh_a) = Inr (PStr (str ''a''))"
    by (simp add: fresh_a_def str_def)
  have f: "find (elem_has_id (PStr (str ''a''))) (rev [Obj fresh_a]) = Some (Obj fresh_a)"
    by (simp add: elem_has_id_def py_eq_def fresh_a_def str_def)
  have w: "list_all event_record ([Obj stored_a, Obj stored_b] @ [Obj fresh_a])"
    by (simp add: event_record_def stored_a_def stored_b_def fresh_a_def str_def)
  from merge_events_last_write_wins
         [of "[Obj stored_a, Obj stored_b]" "[Obj fresh_a]" "[fresh_a, stored_b]"] merge_demo k f
  have "\<exists>r. filter (has_id (PStr (str ''a''))) [fresh_a, stored_b] = [r] \<and> Some (Obj fresh_a) = Some (Obj r)"
    by (metis list.set_intros(1))
  then have "filter (has_id (PStr (str ''a''))) [fresh_a, stored_b] = [fresh_a]" by auto
  with merge_demo w show ?thesis by simp
qed

text \<open>
  C2, amended. In the output of \<open>merge_events\<close>, of two records with different
  \<open>extracted_at\<close> strings the one with the greater string comes first, and a record
  without \<open>extracted_at\<close> comes after every record whose \<open>extracted_at\<close> is a string
  that is not empty.
\<close>

theorem merge_events_order:
  assumes "merge_events existing incoming = Inr out" and "i < length out" and "j < length out"
  shows "(\<forall>a b. (out ! i) (str ''extracted_at'') = Some (PStr a) \<and>
                 (out ! j) (str ''extracted_at'') = Some (PStr b) \<and> a \<noteq> b
              \<longrightarrow> (i < j) = str_lt b a)
       \<and> (\<forall>a. (out ! i) (str ''extracted_at'') = Some (PStr a) \<and> a \<noteq> [] \<and>
              (out ! j) (str ''extracted_at'') = None \<longrightarrow> i < j)"
proof (intro conjI allI impI)
  fix a b
  assume h: "(out ! i) (str ''extracted_at'') = Some (PStr a) \<and>
             (out ! j) (str ''extracted_at'') = Some (PStr b) \<and> a \<noteq> b"
  then have "extracted_at_key (out ! i) = PStr a" "extracted_at_key (out ! j) = PStr b"
    by (simp_all add: extracted_at_key_def get_default_def)
  with merge_events_sorted [OF assms(1)] assms(2,3) h show "(i < j) = str_lt b a"
    by (intro sorted_desc_index) simp_all
next
  fix a
  assume h: "(out ! i) (str ''extracted_at'') = Some (PStr a) \<and> a \<noteq> [] \<and>
             (out ! j) (str ''extracted_at'') = None"
  then have k: "extracted_at_key (out ! i) = PStr a" "extracted_at_key (out ! j) = PStr []"
    by (simp_all add: extracted_at_key_def get_default_def)
  from h have "a \<noteq> []" by simp
  with sorted_desc_index [OF merge_events_sorted [OF assms(1)] assms(2,3) k]
  have "(i < j) = str_lt [] a" by simp
  with \<open>a \<noteq> []\<close> show "i < j" by (cases a) simp_all
qed

text \<open>Witness for C2: the two records of the merged example.\<close>

theorem merge_events_order_witness:
  "merge_events [Obj stored_a, Obj stored_b] [Obj fresh_a] = Inr [fresh_a, stored_b] \<and>
   (0 :: nat) < length [fresh_a, stored_b] \<and> (1 :: nat) < length [fresh_a, stored_b] \<and>
   ((0 :: nat) < 1) = str_lt (str ''2024-05-02T10:00:00Z'') (str ''2024-05-03T10:00:00.5Z'')"
proof -
  have a: "([fresh_a, stored_b] ! 0) (str ''extracted_at'') = Some (PStr (str ''2024-05-03T10:00:00.5Z''))"
    by (simp add: fresh_a_def str_def)
  have b: "([fresh_a, stored_b] ! 1) (str ''extracted_at'') = Some (PStr (str ''2024-05-02T10:00:00Z''))"
    by (simp add: stored_b_def str_def)
  have ne: "str ''2024-05-03T10:00:00.5Z'' \<noteq> str ''2024-05-02T10:00:00Z''" by (simp add: str_def)
  from merge_events_order [OF merge_demo, of 0 1] a b ne
  have "((0 :: nat) < 1) = str_lt (str ''2024-05-02T10:00:00Z'') (str ''2024-05-03T10:00:00.5Z'')"
    by simp
  with merge_demo show ?thesis by simp
qed

text \<open>
  Counterexample to C2 as stated: the missing field counts as the empty string, so a
  record without \<open>extracted_at\<close> ties with a record whose \<open>extracted_at\<close> is the empty
  string, and the stable sort leaves it in front when it was stored first.
\<close>

theorem missing_not_last_counterexample:
  "merge_events [Obj undated, Obj blank_dated] [] = Inr [undated, blank_dated] \<and>
   undated (str ''extracted_at'') = None \<and>
   blank_dated (str ''extracted_at'') = Some (PStr [])"
  by (simp add: eval_merge undated_def blank_dated_def)

lemma strip_length: "length (strip T s) \<le> length s"
proof -
  have "length (dropWhile (isspace T) (rev (dropWhile (isspace T) s))) \<le> length (rev (dropWhile (isspace T) s))"
    by (rule length_dropWhile_le)
  also have "\<dots> \<le> length s" by (simp add: length_dropWhile_le)
  finally show ?thesis by (simp add: strip_def)
qed

lemma is_spam_iff:
  "is_spam T text = (url_search T text \<or> length (strip T text) < 5 \<or> length (strip T text) > 500)"
  by (simp add: is_spam_def Let_def)

lemma extract_spam:
  assumes "get_default comment (str ''text'') (PStr []) = PStr text" and "is_spam T text"
  shows "extract_event_info T now comment = Inr None"
  using assms by (simp add: extract_event_info_def)

lemmas eval_tab = demo_tab_def url_search_def url_pattern_def date_patterns_def event_keywords_def
  lit_def str_def strip_def is_spam_def contains_future_date_def contains_event_keyword_def

subsection \<open>What the URL pattern matches\<close>

lemma re_search_suffix: "re_search T p s = (\<exists>n \<le> length s. match_here T p (drop n s))"
proof (induction s)
  case Nil show ?case by simp
next
  case (Cons c cs)
  have "(\<exists>n \<le> length (c # cs). match_here T p (drop n (c # cs))) =
        (match_here T p (c # cs) \<or> (\<exists>n \<le> length cs. match_here T p (drop n cs)))"
  proof
    assume "\<exists>n \<le> length (c # cs). match_here T p (drop n (c # cs))"
    then obtain n where n: "n \<le> length (c # cs)" "match_here T p (drop n (c # cs))" by blast
    show "match_here T p (c # cs) \<or> (\<exists>n \<le> length cs. match_here T p (drop n cs))"
    proof (cases n)
      case 0 with n show ?thesis by simp
    next
      case (Suc m) with n show ?thesis by auto
    qed
  next
    assume "match_here T p (c # cs) \<or> (\<exists>n \<le> length cs. match_here T p (drop n cs))"
    then show "\<exists>n \<le> length (c # cs). match_here T p (drop n (c # cs))"
    proof
      assume "match_here T p (c # cs)"
      then have "match_here T p (drop 0 (c # cs))" by simp
      then show ?thesis by blast
    next
      assume "\<exists>n \<le> length cs. match_here T p (drop n cs)"
      then obtain n where "n \<le> length cs" "match_here T p (drop n cs)" by blast
      then have "Suc n \<le> length (c # cs)" "match_here T p (drop (Suc n) (c # cs))" by simp_all
      then show ?thesis by blast
    qed
  qed
  with Cons.IH show ?case by simp
qed

lemma contains_suffix: "contains s k = (\<exists>n \<le> length s. starts_with (drop n s) k)"
proof (induction s)
  case Nil show ?case by simp
next
  case (Cons c cs)
  have "(\<exists>n \<le> length (c # cs). starts_with (drop n (c # cs)) k) =
        (starts_with (c # cs) k \<or> (\<exists>n \<le> length cs. starts_with (drop n cs) k))"
  proof
    assume "\<exists>n \<le> length (c # cs). starts_with (drop n (c # cs)) k"
    then obtain n where n: "n \<le> length (c # cs)" "starts_with (drop n (c # cs)) k" by blast
    show "starts_with (c # cs) k \<or> (\<exists>n \<le> length cs. starts_with (drop n cs) k)"
    proof (cases n)
      case 0 with n show ?thesis by simp
    next
      case (Suc m) with n show ?thesis by auto
    qed
  next
    assume "starts_with (c # cs) k \<or> (\<exists>n \<le> length cs. starts_with (drop n cs) k)"
    then show "\<exists>n \<le> length (c # cs). starts_with (drop n (c # cs)) k"
    proof
      assume "starts_with (c # cs) k"
      then have "starts_with (drop 0 (c # cs)) k" by simp
      then show ?thesis by blast
    next
      assume "\<exists>n \<le> length cs. starts_with (drop n cs) k"
      then obtain n where "n \<le> length cs" "starts_with (drop n cs) k" by blast
      then have "Suc n \<le> length (c # cs)" "starts_with (drop (Suc n) (c # cs)) k" by simp_all
      then show ?thesis by blast
    qed
  qed
  with Cons.IH show ?case by simp
qed

lemma match_lit: "match_here T (lit k @ ps) s = (starts_with s k \<and> match_here T ps (drop (length k) s))"
proof (induction s k rule: starts_with.induct)
  case (1 s) show ?case by (simp add: lit_def)
next
  case (2 k ks) show ?case by (simp add: lit_def)
next
  case (3 c cs k ks)
  then show ?case by (auto simp: lit_def)
qed

lemma match_lit_only: "match_here T (lit k) s = starts_with s k"
  using match_lit [of T k "[]" s] by simp

lemma match_many_nonspace: "match_here T [Many NonSpace] s = (\<exists>c cs. s = c # cs \<and> \<not> isspace T c)"
  by (cases s) auto

lemma match_opt: "match_here T (Opt a # ps) s = (match_here T (One a # ps) s \<or> match_here T ps s)"
  by (cases s) auto

lemma starts_with_append:
  "starts_with s (k @ k') = (starts_with s k \<and> starts_with (drop (length k) s) k')"
  by (induction s k rule: starts_with.induct) auto

lemma starts_with_single: "starts_with s [c] = (\<exists>cs. s = c # cs)"
  by (cases s) auto

lemma starts_with_snoc:
  "starts_with s (k @ [c]) = (starts_with s k \<and> (\<exists>cs. drop (length k) s = c # cs))"
  by (simp add: starts_with_append starts_with_single)

lemma match_scheme_rest:
  "match_here T (lit (str ''://'') @ [Many NonSpace]) t =
     (\<exists>c. \<not> isspace T c \<and> starts_with t (str ''://'' @ [c]))"
  by (auto simp: match_lit match_many_nonspace starts_with_snoc)

lemma match_scheme:
  "match_here T (lit (str ''http'') @ [Opt (Chr 115)] @ lit (str ''://'') @ [Many NonSpace]) s =
     (\<exists>c. \<not> isspace T c \<and> (starts_with s (str ''http://'' @ [c]) \<or> starts_with s (str ''https://'' @ [c])))"
proof -
  have one: "[One (Chr 115)] = lit (str ''s'')" by (simp add: lit_def str_def)
  have a: "str ''http://'' = str ''http'' @ str ''://''" by (simp add: str_def)
  have b: "str ''https://'' = str ''http'' @ str ''s'' @ str ''://''" by (simp add: str_def)
  define r where "r = lit (str ''://'') @ [Many NonSpace]"
  define t where "t = drop (length (str ''http'')) s"
  have opt: "match_here T (Opt (Chr 115) # r) t =
        (match_here T (lit (str ''s'') @ r) t \<or> match_here T r t)"
    using match_opt [of T "Chr 115" r t] one [symmetric] by simp
  have s2: "match_here T r u = (\<exists>c. \<not> isspace T c \<and> starts_with u (str ''://'' @ [c]))" for u
    unfolding r_def by (rule match_scheme_rest)
  have "match_here T (lit (str ''s'') @ r) t =
      (starts_with t (str ''s'') \<and> match_here T r (drop (length (str ''s'')) t))"
    by (rule match_lit)
  then have s1: "match_here T (lit (str ''s'') @ r) t =
      (\<exists>c. \<not> isspace T c \<and> starts_with t (str ''s'' @ str ''://'' @ [c]))"
    unfolding s2 starts_with_append [of t "str ''s''"] by blast
  have "match_here T (lit (str ''http'') @ [Opt (Chr 115)] @ r) s =
        (starts_with s (str ''http'') \<and> match_here T (Opt (Chr 115) # r) t)"
    unfolding t_def using match_lit [of T "str ''http''" "Opt (Chr 115) # r" s] by simp
  also have "\<dots> = (starts_with s (str ''http'') \<and>
       ((\<exists>c. \<not> isspace T c \<and> starts_with t (str ''s'' @ str ''://'' @ [c])) \<or>
        (\<exists>c. \<not> isspace T c \<and> starts_with t (str ''://'' @ [c]))))"
    by (simp only: opt s1 s2)
  also have "\<dots> = (\<exists>c. \<not> isspace T c \<and>
       (starts_with s (str ''http'' @ str ''://'' @ [c]) \<or>
        starts_with s (str ''http'' @ str ''s'' @ str ''://'' @ [c])))"
    unfolding t_def starts_with_append [of s "str ''http''"] by blast
  finally show ?thesis unfolding r_def a b by (simp only: append_assoc)
qed

lemma match_www:
  "match_here T (lit (str ''www.'') @ [Many NonSpace]) s =
     (\<exists>c. \<not> isspace T c \<and> starts_with s (str ''www.'' @ [c]))"
  by (auto simp: match_lit match_many_nonspace starts_with_snoc)

lemma search_lit: "re_search T (lit k) s = contains s k"
  by (simp add: re_search_suffix contains_suffix match_lit_only)

lemma search_scheme:
  "re_search T (lit (str ''http'') @ [Opt (Chr 115)] @ lit (str ''://'') @ [Many NonSpace]) s =
     (\<exists>c. \<not> isspace T c \<and> (contains s (str ''http://'' @ [c]) \<or> contains s (str ''https://'' @ [c])))"
  unfolding re_search_suffix contains_suffix match_scheme by blast

lemma search_www:
  "re_search T (lit (str ''www.'') @ [Many NonSpace]) s =
     (\<exists>c. \<not> isspace T c \<and> contains s (str ''www.'' @ [c]))"
  unfolding re_search_suffix contains_suffix match_www by blast

lemma url_search_iff: "url_search T s = url_like T s"
  unfolding url_search_def url_like_def url_pattern_def list_ex_Cons_iff list_ex_Nil_iff search_lit search_scheme search_www
  by blast

text \<open>
  C3. A comment whose text matches the URL pattern (it contains \<^verbatim>\<open>http://\<close>, \<^verbatim>\<open>https://\<close>
  or \<^verbatim>\<open>www.\<close> followed by a character that is not white space, or one of \<^verbatim>\<open>.com\<close>,
  \<^verbatim>\<open>.net\<close>, \<^verbatim>\<open>.org\<close>, \<^verbatim>\<open>.jp\<close>), or is shorter than 5 or longer than 500 characters
  once stripped, is spam and yields no record, whatever else it contains; so does a text
  of 3 characters, and a text of 600 characters after stripping.
\<close>

theorem spam_is_rejected:
  assumes tx: "get_default comment (str ''text'') (PStr []) = PStr text"
  shows "(url_search T text \<or> url_like T text \<or> length (strip T text) < 5 \<or>
          length (strip T text) > 500
            \<longrightarrow> is_spam T text \<and> extract_event_info T now comment = Inr None)
       \<and> (length text = 3 \<longrightarrow> is_spam T text \<and> extract_event_info T now comment = Inr None)
       \<and> (length (strip T text) = 600 \<longrightarrow>
            is_spam T text \<and> extract_event_info T now comment = Inr None)"
proof -
  have rej: "is_spam T text \<Longrightarrow> is_spam T text \<and> extract_event_info T now comment = Inr None"
    using extract_spam [OF tx] by simp
  have short: "length text = 3 \<Longrightarrow> is_spam T text"
    using strip_length [of T "text"] by (simp add: is_spam_iff)
  have long: "length (strip T text) = 600 \<Longrightarrow> is_spam T text"
    by (simp add: is_spam_iff)
  show ?thesis using rej short long by (auto simp: is_spam_iff url_search_iff)
qed

text \<open>
  Witness for C3: the comment with a URL, a comment of 3 characters that holds a date expression
  and an event keyword (ashita and nittei, sharing a character), and a comment of 600 letters.
\<close>

theorem spam_is_rejected_witness:
  "url_search demo_tab (str ''http://x.com '' @ [38283, 20652]) \<and>
   extract_event_info demo_tab demo_now url_comment = Inr None \<and>
   contains_future_date demo_tab [26126, 26085, 31243] \<and>
   contains_event_keyword demo_tab [26126, 26085, 31243] \<and>
   extract_event_info demo_tab demo_now
     (comment_of (PStr (str ''c4'')) (PStr [26126, 26085, 31243]) PNone PNone) = Inr None \<and>
   length (strip demo_tab (replicate 600 97)) = 600 \<and>
   extract_event_info demo_tab demo_now
     (comment_of (PStr (str ''c2'')) (PStr (replicate 600 97)) PNone PNone) = Inr None"
proof -
  have u: "url_search demo_tab (str ''http://x.com '' @ [38283, 20652])"
    by (simp add: eval_tab)
  have ut: "get_default url_comment (str ''text'') (PStr []) = PStr (str ''http://x.com '' @ [38283, 20652])"
    by (simp add: url_comment_def comment_of_def get_default_def str_def)
  from spam_is_rejected [OF ut, of demo_tab demo_now] u
  have a: "extract_event_info demo_tab demo_now url_comment = Inr None" by simp
  have d: "contains_future_date demo_tab [26126, 26085, 31243]" by (simp add: eval_tab)
  have k: "contains_event_keyword demo_tab [26126, 26085, 31243]" by (simp add: eval_tab)
  have st: "get_default (comment_of (PStr (str ''c4'')) (PStr [26126, 26085, 31243]) PNone PNone)
              (str ''text'') (PStr []) = PStr [26126, 26085, 31243]"
    by (simp add: comment_of_def get_default_def str_def)
  from spam_is_rejected [OF st, of demo_tab demo_now]
  have b: "extract_event_info demo_tab demo_now
     (comment_of (PStr (str ''c4'')) (PStr [26126, 26085, 31243]) PNone PNone) = Inr None"
    by simp
  have l: "length (strip demo_tab (replicate 600 97)) = 600" by (simp add: strip_def demo_tab_def)
  have lt: "get_default (comment_of (PStr (str ''c2'')) (PStr (replicate 600 97)) PNone PNone)
              (str ''text'') (PStr []) = PStr (replicate 600 97)"
    by (simp add: comment_of_def get_default_def str_def)
  from spam_is_rejected [OF lt, of demo_tab demo_now] l
  have c: "extract_event_info demo_tab demo_now
     (comment_of (PStr (str ''c2'')) (PStr (replicate 600 97)) PNone PNone) = Inr None"
    by simp
  from u a d k b l c show ?thesis by simp
qed

subsection \<open>The date check and acceptance\<close>

lemma extract_no_date:
  assumes "get_default comment (str ''text'') (PStr []) = PStr text"
    and "\<not> contains_future_date T text"
  shows "extract_event_info T now comment = Inr None"
  using assms by (simp add: extract_event_info_def)

lemma extract_Some_checks:
  assumes "extract_event_info T now comment = Inr (Some r)"
  shows "\<exists>body. comment (str ''text'') = Some (PStr body) \<and> \<not> is_spam T body \<and>
           contains_future_date T body \<and> contains_event_keyword T body"
proof -
  from assms obtain body where t: "get_default comment (str ''text'') (PStr []) = PStr body"
    by (auto simp: extract_event_info_def split: pyval.splits)
  with assms have c: "\<not> is_spam T body" "contains_future_date T body" "contains_event_keyword T body"
    by (auto simp: extract_event_info_def split: if_splits)
  have "comment (str ''text'') = Some (PStr body)"
  proof (cases "comment (str ''text'')")
    case None
    with t have "body = []" by (simp add: get_default_def)
    with c(1) show ?thesis by (simp add: is_spam_iff strip_def)
  next
    case (Some v)
    with t show ?thesis by (simp add: get_default_def)
  qed
  with c show ?thesis by blast
qed

text \<open>
  C4, amended. A comment whose text matches none of the date patterns yields no record,
  whether or not it contains an event keyword; a record is built only for a text that
  matches one.
\<close>

theorem date_pattern_is_required:
  assumes "get_default comment (str ''text'') (PStr []) = PStr text"
  shows "(\<not> contains_future_date T text \<longrightarrow> extract_event_info T now comment = Inr None)
       \<and> (extract_event_info T now comment = Inr (Some r) \<longrightarrow> contains_future_date T text)"
proof -
  have "contains_future_date T text" if "extract_event_info T now comment = Inr (Some r)"
    using that assms by (auto simp: extract_event_info_def split: if_splits)
  with extract_no_date [OF assms] show ?thesis by blast
qed

text \<open>
  Counterexample to C4 as stated: a comment that is not spam, contains two event keywords
  and no date expression is rejected.
\<close>

theorem date_pattern_not_optional_counterexample:
  "\<not> is_spam demo_tab meetup_text \<and> \<not> contains_future_date demo_tab meetup_text \<and>
   contains_event_keyword demo_tab meetup_text \<and>
   extract_event_info demo_tab demo_now meetup_comment = Inr None"
  by (simp add: eval_tab meetup_text_def meetup_comment_def comment_of_def
      extract_event_info_def get_default_def)

text \<open>Witness for C4: the same comment.\<close>

theorem date_pattern_is_required_witness:
  "get_default meetup_comment (str ''text'') (PStr []) = PStr meetup_text \<and>
   \<not> contains_future_date demo_tab meetup_text \<and>
   extract_event_info demo_tab demo_now meetup_comment = Inr None"
proof -
  have t: "get_default meetup_comment (str ''text'') (PStr []) = PStr meetup_text"
    by (simp add: meetup_comment_def comment_of_def get_default_def str_def)
  have d: "\<not> contains_future_date demo_tab meetup_text"
    by (simp add: eval_tab meetup_text_def)
  from date_pattern_is_required [OF t, of demo_tab demo_now] d t show ?thesis by simp
qed

lemma zpad_numeral: "zpad (numeral n) k = zpad (pred_numeral n) (k div 10) @ [48 + k mod 10]"
proof -
  have "zpad (Suc (pred_numeral n)) k = zpad (pred_numeral n) (k div 10) @ [48 + k mod 10]"
    by (rule zpad.simps(2))
  moreover have "(numeral n :: nat) = Suc (pred_numeral n)" by (rule numeral_eq_Suc)
  ultimately show ?thesis by (simp only:)
qed

text \<open>
  C5. A comment that passes the three checks yields a record with the text, the author,
  the publication time and the comment id of the comment, and with \<open>extracted_at\<close> set
  to the ISO format of the clock reading followed by \<open>Z\<close>; the record has these five
  keys and no other.
\<close>

theorem accepted_comment_is_echoed:
  assumes "get_default comment (str ''text'') (PStr []) = PStr text"
    and "\<not> is_spam T text"
    and "contains_future_date T text"
    and "contains_event_keyword T text"
  shows "\<exists>r. extract_event_info T now comment = Inr (Some r) \<and>
           comment (str ''text'') = Some (PStr text) \<and>
           r (str ''text'') = Some (PStr text) \<and>
           r (str ''author'') = Some (get comment (str ''author'')) \<and>
           r (str ''published_at'') = Some (get comment (str ''published_at'')) \<and>
           r (str ''comment_id'') = Some (get comment (str ''comment_id'')) \<and>
           r (str ''extracted_at'') = Some (PStr (isoformat now @ str ''Z'')) \<and>
           dom r = {str ''extracted_at'', str ''published_at'', str ''author'', str ''text'',
                    str ''comment_id''}"
proof -
  define r where "r = [str ''comment_id'' \<mapsto> get comment (str ''comment_id''),
                          str ''text'' \<mapsto> PStr text,
                          str ''author'' \<mapsto> get comment (str ''author''),
                          str ''published_at'' \<mapsto> get comment (str ''published_at''),
                          str ''extracted_at'' \<mapsto> PStr (isoformat now @ str ''Z'')]"
  from assms have e: "extract_event_info T now comment = Inr (Some r)"
    by (simp add: extract_event_info_def r_def)
  from extract_Some_checks [OF e] assms(1) have "comment (str ''text'') = Some (PStr text)"
    by (auto simp: get_default_def)
  moreover have "r (str ''text'') = Some (PStr text)" by (simp add: r_def str_def)
  moreover have "r (str ''author'') = Some (get comment (str ''author''))" by (simp add: r_def str_def)
  moreover have "r (str ''published_at'') = Some (get comment (str ''published_at''))"
    by (simp add: r_def str_def)
  moreover have "r (str ''comment_id'') = Some (get comment (str ''comment_id''))"
    by (simp add: r_def str_def)
  moreover have "r (str ''extracted_at'') = Some (PStr (isoformat now @ str ''Z''))"
    by (simp add: r_def str_def)
  moreover have "dom r = {str ''extracted_at'', str ''published_at'', str ''author'', str ''text'',
                    str ''comment_id''}" by (simp add: r_def)
  ultimately show ?thesis using e by blast
qed

text \<open>Witness for C5: the announcement of the meeting next Saturday.\<close>

theorem accepted_comment_is_echoed_witness:
  "\<exists>r. extract_event_info demo_tab demo_now offkai_comment = Inr (Some r) \<and>
       r (str ''text'') = Some (PStr offkai_text) \<and>
       r (str ''author'') = Some (PStr (str ''carol'')) \<and>
       r (str ''published_at'') = Some (PStr (str ''2024-05-16T12:00:00Z'')) \<and>
       r (str ''comment_id'') = Some (PStr (str ''Ugx1'')) \<and>
       r (str ''extracted_at'') = Some (PStr (str ''2024-05-17T09:30:00.123456Z''))"
proof -
  have t: "get_default offkai_comment (str ''text'') (PStr []) = PStr offkai_text"
    by (simp add: offkai_comment_def comment_of_def get_default_def str_def)
  have s: "\<not> is_spam demo_tab offkai_text" by (simp add: eval_tab offkai_text_def)
  have d: "contains_future_date demo_tab offkai_text" by (simp add: eval_tab offkai_text_def)
  have k: "contains_event_keyword demo_tab offkai_text" by (simp add: eval_tab offkai_text_def)
  have g: "get offkai_comment (str ''author'') = PStr (str ''carol'')"
    "get offkai_comment (str ''published_at'') = PStr (str ''2024-05-16T12:00:00Z'')"
    "get offkai_comment (str ''comment_id'') = PStr (str ''Ugx1'')"
    by (simp_all add: offkai_comment_def comment_of_def get_def str_def)
  have i: "isoformat demo_now @ str ''Z'' = str ''2024-05-17T09:30:00.123456Z''"
    by (simp add: isoformat_def demo_now_def str_def zpad_numeral)
  from accepted_comment_is_echoed [OF t s d k, of demo_now] show ?thesis
    unfolding g i by blast
qed

end
